theory Spec2Isabelle
  imports
    Main
    "HOL-Library.Word"
    "HOL-Library.List_Lexorder"
    "HOL-Library.Char_ord"
    "HOL-Library.Product_Lexorder"
    "HOL-Library.Multiset"
begin

section \<open>The sidebar of the site configuration (docs/.vitepress/config.mts)\<close>

subsection \<open>Strings and their order\<close>

text \<open>
  A JavaScript string is a sequence of UTF-16 code units. \<open>Array.prototype.sort\<close>
  without a comparator orders strings by comparing code units from the left, a proper
  prefix coming first: this is the lexicographic order that \<open>List_Lexorder\<close> puts on
  lists of 16-bit words.
\<close>

type_synonym jsstring = "16 word list"

text \<open>A string literal of the source, one code unit for each (ASCII) character.\<close>

definition js :: "string \<Rightarrow> jsstring" where
  "js s = map (\<lambda>c. word_of_nat (of_char c)) s"

text \<open>\<open>f.endsWith(s)\<close>\<close>

definition endsWith :: "jsstring \<Rightarrow> jsstring \<Rightarrow> bool" where
  "endsWith f s = (length s \<le> length f \<and> drop (length f - length s) f = s)"

text \<open>
  \<open>f.replace(/\.md$/, '')\<close>: the pattern has no flag, so \<open>$\<close> matches at the end of
  the input only, and the one match that can exist is the final \<open>.md\<close>.
\<close>

definition replace_md :: "jsstring \<Rightarrow> jsstring" where
  "replace_md f = (if endsWith f (js ''.md'') then take (length f - 3) f else f)"

text \<open>
  \<open>xs.slice(0, e)\<close> for an integer \<open>e\<close>: a negative end counts from the end of the
  array, and both bounds are clamped to the array.
\<close>

definition slice0 :: "'a list \<Rightarrow> int \<Rightarrow> 'a list" where
  "slice0 xs e = take (if e < 0 then nat (int (length xs) + e) else nat e) xs"

subsection \<open>The file system as \<open>node:fs\<close> shows it\<close>

text \<open>
  The configuration reads the file system through \<open>existsSync\<close> and \<open>readdirSync\<close>
  only, always at \<open>join(process.cwd(), 'docs', dirFromDocsRoot)\<close>. The state of the
  file system is therefore a function from \<open>dirFromDocsRoot\<close> to what is found at that
  path: nothing (\<open>existsSync\<close> is false), something that is not a directory, a
  directory with its entries in the order in which the operating system returns them,
  or a directory that exists and that the process may not read. An entry carries what
  \<open>fs.Dirent\<close> offers and the code uses: \<open>name\<close> and \<open>isDirectory()\<close>.
\<close>

record dirent =
  name :: jsstring
  isDirectory :: bool

datatype node = File | Dir "dirent list" | Unreadable

type_synonym filesystem = "jsstring \<Rightarrow> node option"

datatype fs_error = ENOENT | ENOTDIR | EACCES

definition existsSync :: "filesystem \<Rightarrow> jsstring \<Rightarrow> bool" where
  "existsSync fs abspath = (fs abspath \<noteq> None)"

text \<open>
  \<open>readdirSync(abs, { withFileTypes: true })\<close>; it throws where there is no directory
  and where the directory may not be read.
\<close>

definition readdirSync_withFileTypes :: "filesystem \<Rightarrow> jsstring \<Rightarrow> fs_error + dirent list" where
  "readdirSync_withFileTypes fs abspath =
     (case fs abspath of
        None \<Rightarrow> Inl ENOENT
      | Some File \<Rightarrow> Inl ENOTDIR
      | Some (Dir ds) \<Rightarrow> Inr ds
      | Some Unreadable \<Rightarrow> Inl EACCES)"

text \<open>\<open>readdirSync(abs)\<close>: the names of the entries.\<close>

definition readdirSync :: "filesystem \<Rightarrow> jsstring \<Rightarrow> fs_error + jsstring list" where
  "readdirSync fs abspath =
     (case readdirSync_withFileTypes fs abspath of
        Inl e \<Rightarrow> Inl e
      | Inr ds \<Rightarrow> Inr (map name ds))"

subsection \<open>The functions of the configuration\<close>

definition listDirNames :: "filesystem \<Rightarrow> jsstring \<Rightarrow> fs_error + jsstring list" where
  "listDirNames fs dirFromDocsRoot =
     (if \<not> existsSync fs dirFromDocsRoot then Inr []
      else case readdirSync_withFileTypes fs dirFromDocsRoot of
             Inl e \<Rightarrow> Inl e
           | Inr ds \<Rightarrow> Inr (map name (filter isDirectory ds)))"

definition listMdBasenames :: "filesystem \<Rightarrow> jsstring \<Rightarrow> fs_error + jsstring list" where
  "listMdBasenames fs dirFromDocsRoot =
     (if \<not> existsSync fs dirFromDocsRoot then Inr []
      else case readdirSync fs dirFromDocsRoot of
             Inl e \<Rightarrow> Inl e
           | Inr fs' \<Rightarrow>
               Inr (filter (\<lambda>n. n \<noteq> js ''index'')
                      (map replace_md (filter (\<lambda>f. endsWith f (js ''.md'')) fs'))))"

record sidebar_item =
  item_text :: jsstring
  item_link :: jsstring

record month_group =
  group_text :: jsstring
  group_collapsed :: bool
  group_items :: "sidebar_item list"

record sidebar_group =
  sidebar_text :: jsstring
  sidebar_items :: "month_group list"

text \<open>A parameter with a default value: \<open>None\<close> is the omitted argument.\<close>

definition makeItems ::
  "filesystem \<Rightarrow> jsstring \<Rightarrow> jsstring \<Rightarrow> int option \<Rightarrow> fs_error + sidebar_item list" where
  "makeItems fs prefix dirFromDocsRoot limit =
     (case listMdBasenames fs dirFromDocsRoot of
        Inl e \<Rightarrow> Inl e
      | Inr ns \<Rightarrow>
          let names = slice0 (rev (sort ns)) (case limit of None \<Rightarrow> 62 | Some l \<Rightarrow> l)
          in Inr (map (\<lambda>n. \<lparr>item_text = n, item_link = js ''/'' @ prefix @ js ''/'' @ n\<rparr>) names))"

text \<open>\<open>months.map(...)\<close> where the callback may throw: the first exception ends the map.\<close>

fun map_throwing :: "('a \<Rightarrow> 'e + 'b) \<Rightarrow> 'a list \<Rightarrow> 'e + 'b list" where
  "map_throwing f [] = Inr []"
| "map_throwing f (x # xs) =
     (case f x of
        Inl e \<Rightarrow> Inl e
      | Inr y \<Rightarrow> (case map_throwing f xs of Inl e \<Rightarrow> Inl e | Inr ys \<Rightarrow> Inr (y # ys)))"

definition month_entry :: "filesystem \<Rightarrow> jsstring \<Rightarrow> fs_error + month_group" where
  "month_entry fs m =
     (case makeItems fs (js ''reports/'' @ m) (js ''reports'' @ js ''/'' @ m) (Some 62) of
        Inl e \<Rightarrow> Inl e
      | Inr its \<Rightarrow> Inr \<lparr>group_text = m, group_collapsed = True, group_items = its\<rparr>)"

definition makeMonthGroups :: "filesystem \<Rightarrow> int option \<Rightarrow> fs_error + month_group list" where
  "makeMonthGroups fs limitMonths =
     (case listDirNames fs (js ''reports'') of
        Inl e \<Rightarrow> Inl e
      | Inr ds \<Rightarrow>
          let months = slice0 (rev (sort ds)) (case limitMonths of None \<Rightarrow> 24 | Some l \<Rightarrow> l)
          in map_throwing (month_entry fs) months)"

text \<open>\<open>themeConfig.sidebar\<close> of the exported configuration.\<close>

definition sidebar :: "filesystem \<Rightarrow> fs_error + sidebar_group list" where
  "sidebar fs =
     (case makeMonthGroups fs (Some 36) of
        Inl e \<Rightarrow> Inl e
      | Inr gs \<Rightarrow> Inr [\<lparr>sidebar_text = js ''Digests'', sidebar_items = gs\<rparr>])"

subsection \<open>Well-formed file systems and examples\<close>

text \<open>A directory exists at the path, readable or not.\<close>

definition is_directory :: "filesystem \<Rightarrow> jsstring \<Rightarrow> bool" where
  "is_directory fs p =
     (case fs p of Some (Dir ds) \<Rightarrow> True | Some Unreadable \<Rightarrow> True | _ \<Rightarrow> False)"

definition readable_directory :: "filesystem \<Rightarrow> jsstring \<Rightarrow> bool" where
  "readable_directory fs p = (case fs p of Some (Dir ds) \<Rightarrow> True | _ \<Rightarrow> False)"

text \<open>
  In a file system that the build can read, an entry of \<open>docs/reports\<close> for which
  \<open>isDirectory()\<close> holds is a readable directory at \<open>docs/reports/<name>\<close>, and
  \<open>docs/reports\<close> itself, when it exists, is a readable directory.
\<close>

definition reports_consistent :: "filesystem \<Rightarrow> bool" where
  "reports_consistent fs =
     (case fs (js ''reports'') of
        None \<Rightarrow> True
      | Some File \<Rightarrow> False
      | Some (Dir ds) \<Rightarrow>
          list_all (\<lambda>d. readable_directory fs (js ''reports/'' @ name d)) (filter isDirectory ds)
      | Some Unreadable \<Rightarrow> False)"

text \<open>Two months of digests, with an \<open>index.md\<close> and a file that is not markdown.\<close>

definition fs_small :: filesystem where
  "fs_small p =
     (if p = js ''reports'' then
        Some (Dir [\<lparr>name = js ''2026-01'', isDirectory = True\<rparr>,
                   \<lparr>name = js ''2026-02'', isDirectory = True\<rparr>,
                   \<lparr>name = js ''index.md'', isDirectory = False\<rparr>])
      else if p = js ''reports/2026-01'' then
        Some (Dir [\<lparr>name = js ''2026-01-30.md'', isDirectory = False\<rparr>,
                   \<lparr>name = js ''index.md'', isDirectory = False\<rparr>,
                   \<lparr>name = js ''2026-01-31.md'', isDirectory = False\<rparr>,
                   \<lparr>name = js ''cover.png'', isDirectory = False\<rparr>])
      else if p = js ''reports/2026-02'' then
        Some (Dir [\<lparr>name = js ''2026-02-01.md'', isDirectory = False\<rparr>])
      else if p = js ''index.md'' then Some File
      else None)"

text \<open>Thirty-seven months, January 2021 to January 2024, in no particular order.\<close>

definition months_many :: "jsstring list" where
  "months_many =
     [js ''2021-06'', js ''2021-10'', js ''2022-05'', js ''2021-04'',
      js ''2021-12'', js ''2022-07'', js ''2023-09'', js ''2022-03'',
      js ''2022-02'', js ''2021-02'', js ''2023-06'', js ''2023-10'',
      js ''2023-05'', js ''2021-03'', js ''2021-11'', js ''2023-01'',
      js ''2023-08'', js ''2022-01'', js ''2022-10'', js ''2022-09'',
      js ''2023-02'', js ''2023-04'', js ''2022-11'', js ''2021-07'',
      js ''2021-08'', js ''2022-06'', js ''2023-12'', js ''2024-01'',
      js ''2023-03'', js ''2021-01'', js ''2022-08'', js ''2021-05'',
      js ''2023-07'', js ''2022-12'', js ''2021-09'', js ''2023-11'',
      js ''2022-04'']"

definition fs_many :: filesystem where
  "fs_many p =
     (if p = js ''reports'' then
        Some (Dir (map (\<lambda>m. \<lparr>name = m, isDirectory = True\<rparr>) months_many))
      else if p \<in> set (map (\<lambda>m. js ''reports/'' @ m) months_many) then
        Some (Dir [\<lparr>name = drop 8 p @ js ''-01.md'', isDirectory = False\<rparr>])
      else None)"

text \<open>\<open>docs/reports\<close> is a regular file.\<close>

definition fs_reports_is_file :: filesystem where
  "fs_reports_is_file p = (if p = js ''reports'' then Some File else None)"

section \<open>The candidate-to-digest pipeline\<close>

text \<open>
  The repository's sources hold the site configuration only; the pipeline that the
  specification describes (Fetcher, Selector, Renderer, Publisher, Orchestrator) is not
  among them. Every definition of this section is modelled from the specification, of
  which it names the paragraph.
\<close>

subsection \<open>Data model\<close>

text \<open>Modelled from the spec: the pipeline's error taxonomy (paragraph 7); no source declares it.\<close>

datatype pipeline_error =
  SourceUnavailable | MalformedResponse | TemplateViolation | AlreadyPublished | PublishIOError

text \<open>Modelled from the spec: the Candidate of paragraph 3; no source declares it.\<close>

record candidate =
  cid :: string
  title :: string
  post_url :: string
  external_url :: "string option"
  raw_body :: string
  fetched_at :: int

text \<open>
  Modelled from the spec: the SelectionCriteria of paragraph 3; no source declares it.
  The scoring heuristic is pluggable and passed to the Selector beside the criteria.
\<close>

record selection_criteria =
  min_count :: nat
  max_count :: nat
  exclusion :: "(candidate \<Rightarrow> bool) list"
  dedup_window :: "string set"

text \<open>Modelled from the spec: the DigestEntry and the Digest of paragraph 3; no source declares them.\<close>

record digest_entry =
  entry_title :: string
  entry_post_url :: string
  entry_external_url :: "string option"
  summary_points :: "string list"
  task_block :: string

record digest =
  date_key :: string
  entries :: "digest_entry list"

text \<open>
  Modelled from the spec: the repository state that the Publisher owns (paragraphs 3,
  4.4 and 5), whose implementation is missing: the digest file of each date_key (its
  content is the markdown of \<open>render_digest\<close>, a function of the digest, which stands
  for it here), the temporary files of the temp-write-then-rename discipline, and the
  PublicationRecord, an append-only log of candidate ids.
\<close>

record repository =
  digest_files :: "string \<rightharpoonup> digest"
  temp_files :: "string \<rightharpoonup> digest"
  publication_record :: "string list"

subsection \<open>Fetcher\<close>

text \<open>
  Modelled from the spec: \<open>fetch\<close> of paragraph 4.1, whose implementation is missing.
  The external source is a collaborator; what it answers is the input of the model.
  Fetching changes nothing locally.
\<close>

datatype source_response = Unreachable | Unparsable | Records "candidate list"

definition fetch :: "source_response \<Rightarrow> pipeline_error + candidate list" where
  "fetch r =
     (case r of
        Unreachable \<Rightarrow> Inl SourceUnavailable
      | Unparsable \<Rightarrow> Inl MalformedResponse
      | Records cs \<Rightarrow> Inr cs)"

subsection \<open>Selector\<close>

text \<open>
  Modelled from the spec: steps 1 and 2 of the Selector's algorithm (paragraph 4.2),
  whose implementation is missing: the candidates that remain after the dedup against
  the dedup_window and after the exclusion predicates.
\<close>

definition qualifying :: "candidate list \<Rightarrow> selection_criteria \<Rightarrow> candidate list" where
  "qualifying candidates criteria =
     filter (\<lambda>c. \<not> list_ex (\<lambda>p. p c) (exclusion criteria))
       (filter (\<lambda>c. cid c \<notin> dedup_window criteria) candidates)"

text \<open>
  Modelled from the spec: \<open>select\<close> of paragraph 4.2, whose implementation is missing.
  Steps 3 and 4: the best scores first, equal scores by fetch time descending and then
  by id, and the first max_count of them; nothing is added when fewer than min_count
  remain.
\<close>

definition select ::
  "(candidate \<Rightarrow> int) \<Rightarrow> candidate list \<Rightarrow> selection_criteria \<Rightarrow> candidate list" where
  "select score candidates criteria =
     take (max_count criteria)
       (sort_key (\<lambda>c. (- score c, - fetched_at c, cid c)) (qualifying candidates criteria))"

subsection \<open>Renderer\<close>

text \<open>
  Modelled from the spec: the substring test of the DigestEntry invariant (paragraph 3),
  whose implementation is missing. \<open>contains hay needle\<close>: \<open>needle\<close> occurs in
  \<open>hay\<close> as a substring.
\<close>

fun contains :: "string \<Rightarrow> string \<Rightarrow> bool" where
  "contains [] needle = (needle = [])"
| "contains (h # hay) needle = (take (length needle) (h # hay) = needle \<or> contains hay needle)"

text \<open>
  Modelled from the spec: \<open>render\<close> of paragraph 4.3, whose implementation is missing.
  Writing the summary points and the task block is an external capability
  (\<open>summarize\<close>, \<open>make_task\<close>); the core checks the count of the points and that the
  task block embeds the post_url, and fails with TemplateViolation otherwise.
\<close>

definition render ::
  "(candidate \<Rightarrow> string list) \<Rightarrow> (candidate \<Rightarrow> string) \<Rightarrow> candidate \<Rightarrow> pipeline_error + digest_entry" where
  "render summarize make_task c =
     (let e = \<lparr>entry_title = title c, entry_post_url = post_url c,
                entry_external_url = external_url c,
                summary_points = summarize c, task_block = make_task c\<rparr>
      in if length (summary_points e) < 6 \<or> 10 < length (summary_points e)
            \<or> \<not> contains (task_block e) (post_url c)
         then Inl TemplateViolation
         else Inr e)"

text \<open>
  Modelled from the spec: the caller's policy of paragraph 4.3 for a TemplateViolation
  (drop the candidate, continue), whose implementation is missing. Each candidate that
  renders is kept with its entry, in the Selector's order.
\<close>

fun render_all ::
  "(candidate \<Rightarrow> string list) \<Rightarrow> (candidate \<Rightarrow> string) \<Rightarrow> candidate list
     \<Rightarrow> (candidate \<times> digest_entry) list" where
  "render_all summarize make_task [] = []"
| "render_all summarize make_task (c # cs) =
     (case render summarize make_task c of
        Inl err \<Rightarrow> render_all summarize make_task cs
      | Inr e \<Rightarrow> (c, e) # render_all summarize make_task cs)"

subsection \<open>Publisher\<close>

text \<open>
  Modelled from the spec: the file-system failures of paragraph 7 (PublishIOError,
  "filesystem failure during write/append"), which no source declares: the step of a
  publication at which the file system fails, if any.
\<close>

datatype io_fault = NoFault | WriteFails | AppendFails | RenameFails

text \<open>
  Modelled from the spec: \<open>publish\<close> of paragraphs 4.4, 5 and 7, whose implementation
  is missing. An existing file for the date_key is refused unless overwriting is asked
  for. Otherwise the digest is written to a temporary file, the ids are appended to the
  PublicationRecord, and the temporary file is renamed to the digest file; a failure at
  any step rolls back what the steps before it did.
\<close>

definition publish ::
  "bool \<Rightarrow> io_fault \<Rightarrow> digest \<Rightarrow> string list \<Rightarrow> repository \<Rightarrow> (pipeline_error + unit) \<times> repository" where
  "publish overwrite fault d ids repo =
     (if digest_files repo (date_key d) \<noteq> None \<and> \<not> overwrite then (Inl AlreadyPublished, repo)
      else
        let written = repo\<lparr>temp_files := (temp_files repo)(date_key d \<mapsto> d)\<rparr> in
        if fault = WriteFails
        then (Inl PublishIOError, written\<lparr>temp_files := (temp_files written)(date_key d := None)\<rparr>)
        else
          let appended = written\<lparr>publication_record := publication_record written @ ids\<rparr> in
          if fault = AppendFails
          then (Inl PublishIOError, written\<lparr>temp_files := (temp_files written)(date_key d := None)\<rparr>)
          else if fault = RenameFails
          then (Inl PublishIOError,
                appended\<lparr>publication_record :=
                            take (length (publication_record repo)) (publication_record appended),
                          temp_files := (temp_files appended)(date_key d := None)\<rparr>)
          else (Inr (),
                appended\<lparr>digest_files := (digest_files appended)(date_key d \<mapsto> d),
                          temp_files := (temp_files appended)(date_key d := None)\<rparr>))"

subsection \<open>Orchestrator\<close>

text \<open>Modelled from the spec: the terminal states of a run (paragraph 4.5); no source declares them.\<close>

datatype outcome = Published digest | SkippedEmpty | Failed pipeline_error

text \<open>
  Modelled from the spec: what is fixed across runs (the bounds, the exclusion
  predicates and the pluggable capabilities of paragraphs 3, 4.2 and 4.3) and what one
  run receives (the answer of the source, the date_key, the overwrite instruction and
  the behaviour of the file system); no source declares them.
\<close>

record policy =
  policy_min_count :: nat
  policy_max_count :: nat
  policy_exclusion :: "(candidate \<Rightarrow> bool) list"
  score :: "candidate \<Rightarrow> int"
  summarize :: "candidate \<Rightarrow> string list"
  make_task :: "candidate \<Rightarrow> string"

record run_input =
  response :: source_response
  run_date_key :: string
  overwrite :: bool
  fault :: io_fault

text \<open>
  Modelled from the spec: the criteria of a run (paragraphs 3 and 8), whose
  implementation is missing: the dedup_window is the PublicationRecord at the start of
  the run.
\<close>

definition criteria_of :: "policy \<Rightarrow> repository \<Rightarrow> selection_criteria" where
  "criteria_of pol repo =
     \<lparr>min_count = policy_min_count pol, max_count = policy_max_count pol,
      exclusion = policy_exclusion pol, dedup_window = set (publication_record repo)\<rparr>"

text \<open>
  Modelled from the spec: the candidates that a run selects and those whose entries it
  keeps (paragraph 4.5, stages Select and Render), whose implementation is missing.
\<close>

definition selected_in :: "policy \<Rightarrow> candidate list \<Rightarrow> repository \<Rightarrow> candidate list" where
  "selected_in pol cands repo = select (score pol) cands (criteria_of pol repo)"

definition kept_in ::
  "policy \<Rightarrow> candidate list \<Rightarrow> repository \<Rightarrow> (candidate \<times> digest_entry) list" where
  "kept_in pol cands repo = render_all (summarize pol) (make_task pol) (selected_in pol cands repo)"

text \<open>
  Modelled from the spec: the Orchestrator of paragraph 4.5, whose implementation is
  missing: Fetch, Select, Render entry by entry, Publish. A failure of Fetch or Publish
  fails the run; a digest left without entries is skipped and nothing is written.
\<close>

definition run :: "policy \<Rightarrow> run_input \<Rightarrow> repository \<Rightarrow> outcome \<times> repository" where
  "run pol inp repo =
     (case fetch (response inp) of
        Inl err \<Rightarrow> (Failed err, repo)
      | Inr cands \<Rightarrow>
          let kept = kept_in pol cands repo in
          if kept = [] then (SkippedEmpty, repo)
          else
            let d = \<lparr>date_key = run_date_key inp, entries = map snd kept\<rparr> in
            case publish (overwrite inp) (fault inp) d (map (cid \<circ> fst) kept) repo of
              (Inl err, repo') \<Rightarrow> (Failed err, repo')
            | (Inr u, repo') \<Rightarrow> (Published d, repo'))"

text \<open>Modelled from the spec: a sequence of runs, each on the state the one before left.\<close>

fun run_all :: "policy \<Rightarrow> run_input list \<Rightarrow> repository \<Rightarrow> repository" where
  "run_all pol [] repo = repo"
| "run_all pol (inp # inps) repo = run_all pol inps (snd (run pol inp repo))"

section \<open>Example inputs of the pipeline\<close>

definition post :: "string \<Rightarrow> string \<Rightarrow> string \<Rightarrow> int \<Rightarrow> candidate" where
  "post i ttl body t =
     \<lparr>cid = i, title = ttl, post_url = ''https://example.org/post/'' @ i,
      external_url = None, raw_body = body, fetched_at = t\<rparr>"

text \<open>
  Four posts: one renders, one is summarised in four points only, one carries a
  secret, and one renders and has the best score.
\<close>

definition example_feed :: "candidate list" where
  "example_feed =
     [post ''a'' ''Alpha'' ''aaaa'' 3, post ''b'' ''short'' ''bb'' 2,
      post ''c'' ''Gamma'' ''my api_key is 1'' 1, post ''d'' ''Delta'' ''dddddd'' 5]"

definition example_policy :: policy where
  "example_policy =
     \<lparr>policy_min_count = 8, policy_max_count = 12,
      policy_exclusion = [\<lambda>c. contains (raw_body c) ''api_key''],
      score = (\<lambda>c. int (length (raw_body c))),
      summarize = (\<lambda>c. replicate (if title c = ''short'' then 4 else 6) (title c)),
      make_task = (\<lambda>c. ''read '' @ post_url c)\<rparr>"

definition empty_repository :: repository where
  "empty_repository = \<lparr>digest_files = Map.empty, temp_files = Map.empty, publication_record = []\<rparr>"

definition example_run :: run_input where
  "example_run =
     \<lparr>response = Records example_feed, run_date_key = ''2026-01-31'',
      overwrite = False, fault = NoFault\<rparr>"

text \<open>The digest that \<open>example_run\<close> publishes, and the repository after it.\<close>

definition example_digest :: digest where
  "example_digest =
     \<lparr>date_key = ''2026-01-31'',
      entries =
        [\<lparr>entry_title = ''Delta'', entry_post_url = ''https://example.org/post/d'',
          entry_external_url = None, summary_points = replicate 6 ''Delta'',
          task_block = ''read https://example.org/post/d''\<rparr>,
         \<lparr>entry_title = ''Alpha'', entry_post_url = ''https://example.org/post/a'',
          entry_external_url = None, summary_points = replicate 6 ''Alpha'',
          task_block = ''read https://example.org/post/a''\<rparr>]\<rparr>"

definition example_repository :: repository where
  "example_repository =
     \<lparr>digest_files = [''2026-01-31'' \<mapsto> example_digest], temp_files = Map.empty,
      publication_record = [''d'', ''a'']\<rparr>"

section \<open>Properties of the sidebar\<close>

lemma descending_slice0: "sorted_wrt (\<lambda>a b. b \<le> a) (slice0 (rev (sort xs)) e)"
  by (simp add: slice0_def sorted_wrt_take sorted_wrt_rev)

lemma set_slice0: "set (slice0 xs e) \<subseteq> set xs"
  by (simp add: slice0_def set_take_subset)

lemma map_throwing_Inr:
  "map_throwing f xs = Inr ys \<Longrightarrow> list_all2 (\<lambda>x y. f x = Inr y) xs ys"
  by (induction xs arbitrary: ys) (auto split: sum.splits)

lemma map_throwing_total:
  "\<forall>x\<in>set xs. \<exists>y. f x = Inr y \<Longrightarrow> \<exists>ys. map_throwing f xs = Inr ys"
  by (induction xs) (auto split: sum.splits)

lemma listDirNames_cases:
  "listDirNames fs p =
     (case fs p of None \<Rightarrow> Inr [] | Some File \<Rightarrow> Inl ENOTDIR
      | Some (Dir ds) \<Rightarrow> Inr (map name (filter isDirectory ds))
      | Some Unreadable \<Rightarrow> Inl EACCES)"
  by (simp add: listDirNames_def existsSync_def readdirSync_withFileTypes_def
      split: option.splits node.splits)

lemma listMdBasenames_cases:
  "listMdBasenames fs p =
     (case fs p of None \<Rightarrow> Inr [] | Some File \<Rightarrow> Inl ENOTDIR
      | Some (Dir ds) \<Rightarrow>
          Inr (filter (\<lambda>n. n \<noteq> js ''index'')
                 (map replace_md (filter (\<lambda>f. endsWith f (js ''.md'')) (map name ds))))
      | Some Unreadable \<Rightarrow> Inl EACCES)"
  by (simp add: listMdBasenames_def existsSync_def readdirSync_def readdirSync_withFileTypes_def
      split: option.splits node.splits)

lemma makeItems_Inr:
  "listMdBasenames fs d = Inr ns \<Longrightarrow>
   makeItems fs prefix d limit =
     Inr (map (\<lambda>n. \<lparr>item_text = n, item_link = js ''/'' @ prefix @ js ''/'' @ n\<rparr>)
            (slice0 (rev (sort ns)) (case limit of None \<Rightarrow> 62 | Some l \<Rightarrow> l)))"
  by (simp add: makeItems_def)

lemma makeItems_texts:
  "makeItems fs prefix d limit = Inr its \<Longrightarrow>
   \<exists>ns. listMdBasenames fs d = Inr ns \<and>
        map item_text its = slice0 (rev (sort ns)) (case limit of None \<Rightarrow> 62 | Some l \<Rightarrow> l)"
  by (auto simp: makeItems_def Let_def comp_def split: sum.splits)

lemma month_entry_Inr:
  "month_entry fs m = Inr g \<Longrightarrow>
   group_text g = m \<and> group_collapsed g \<and>
   makeItems fs (js ''reports/'' @ m) (js ''reports/'' @ m) (Some 62) = Inr (group_items g)"
  by (auto simp: month_entry_def js_def split: sum.splits)

lemma month_entry_total:
  "readable_directory fs (js ''reports/'' @ m) \<Longrightarrow> \<exists>g. month_entry fs m = Inr g"
  by (auto simp: month_entry_def makeItems_def listMdBasenames_cases readable_directory_def js_def Let_def
      split: sum.splits option.splits node.splits)

lemma map_throwing_texts:
  "map_throwing (month_entry fs) ms = Inr gs \<Longrightarrow> map group_text gs = ms"
  by (induction ms arbitrary: gs) (auto split: sum.splits dest: month_entry_Inr)

lemma makeMonthGroups_total:
  assumes "reports_consistent fs"
  shows "\<exists>gs. makeMonthGroups fs limitMonths = Inr gs"
proof (cases "fs (js ''reports'')")
  case None
  then show ?thesis
    by (simp add: makeMonthGroups_def listDirNames_cases slice0_def)
next
  case (Some n)
  show ?thesis
  proof (cases n)
    case File
    with Some assms show ?thesis by (simp add: reports_consistent_def)
  next
    case Unreadable
    with Some assms show ?thesis by (simp add: reports_consistent_def)
  next
    case (Dir ds)
    let ?months = "map name (filter isDirectory ds)"
    let ?lim = "case limitMonths of None \<Rightarrow> 24 | Some l \<Rightarrow> l"
    from Some Dir assms
    have all: "\<forall>m\<in>set ?months. readable_directory fs (js ''reports/'' @ m)"
      by (auto simp: reports_consistent_def list_all_iff)
    have "set (slice0 (rev (sort ?months)) ?lim) \<subseteq> set ?months"
      using set_slice0 [of "rev (sort ?months)" ?lim] by simp
    with all have "\<forall>m\<in>set (slice0 (rev (sort ?months)) ?lim). \<exists>g. month_entry fs m = Inr g"
      using month_entry_total by blast
    then have "\<exists>gs. map_throwing (month_entry fs) (slice0 (rev (sort ?months)) ?lim) = Inr gs"
      by (rule map_throwing_total)
    with Some Dir show ?thesis
      by (simp add: makeMonthGroups_def listDirNames_cases Let_def)
  qed
qed

lemma makeMonthGroups_texts:
  assumes "makeMonthGroups fs limitMonths = Inr gs"
  shows "\<exists>ds. listDirNames fs (js ''reports'') = Inr ds \<and>
           map group_text gs = slice0 (rev (sort ds)) (case limitMonths of None \<Rightarrow> 24 | Some l \<Rightarrow> l)"
  using assms
  by (auto simp: makeMonthGroups_def Let_def split: sum.splits dest: map_throwing_texts)

lemma makeMonthGroups_items:
  assumes "makeMonthGroups fs limitMonths = Inr gs" and "g \<in> set gs"
  shows "\<exists>ns. listMdBasenames fs (js ''reports/'' @ group_text g) = Inr ns \<and>
           map item_text (group_items g) = slice0 (rev (sort ns)) 62"
proof -
  from assms(1) obtain ms where "map_throwing (month_entry fs) ms = Inr gs"
    by (auto simp: makeMonthGroups_def Let_def split: sum.splits)
  then have "list_all2 (\<lambda>m g. month_entry fs m = Inr g) ms gs"
    by (rule map_throwing_Inr)
  with assms(2) obtain m where "month_entry fs m = Inr g"
    by (auto simp: in_set_conv_nth list_all2_conv_all_nth)
  then have "makeItems fs (js ''reports/'' @ group_text g) (js ''reports/'' @ group_text g) (Some 62)
               = Inr (group_items g)"
    by (auto dest: month_entry_Inr)
  from makeItems_texts [OF this] show ?thesis by simp
qed

lemma descending_mono_on:
  assumes "sorted_wrt (\<lambda>a b. b \<le> a) xs" and "mono_on (set xs) date"
  shows "sorted_wrt (\<lambda>a b. date b \<le> date a) xs"
  using assms by (auto simp: sorted_wrt_iff_nth_less mono_on_def)

text \<open>
  Claim C1. On a well-formed file system \<open>makeMonthGroups\<close> returns, and its groups are
  the directory names of \<open>docs/reports\<close> in descending lexical order (cut to the limit);
  the items of each group are the markdown basenames of that month's directory in
  descending lexical order (cut to 62). Nothing but the names is read: any \<open>date\<close>
  that is monotone on the names shown is therefore descending along the groups and
  along the items of each group.
\<close>

theorem makeMonthGroups_reverse_lexical:
  assumes "reports_consistent fs"
  shows "\<exists>gs ds. makeMonthGroups fs limitMonths = Inr gs
           \<and> listDirNames fs (js ''reports'') = Inr ds
           \<and> map group_text gs = slice0 (rev (sort ds)) (case limitMonths of None \<Rightarrow> 24 | Some l \<Rightarrow> l)
           \<and> sorted_wrt (\<lambda>a b. b \<le> a) (map group_text gs)
           \<and> (mono_on (set (map group_text gs)) date \<longrightarrow>
                sorted_wrt (\<lambda>a b. date b \<le> date a) (map group_text gs))
           \<and> (\<forall>g\<in>set gs. \<exists>ns.
                 listMdBasenames fs (js ''reports/'' @ group_text g) = Inr ns
               \<and> map item_text (group_items g) = slice0 (rev (sort ns)) 62
               \<and> sorted_wrt (\<lambda>a b. b \<le> a) (map item_text (group_items g))
               \<and> (mono_on (set (map item_text (group_items g))) date \<longrightarrow>
                    sorted_wrt (\<lambda>a b. date b \<le> date a) (map item_text (group_items g))))"
proof -
  from makeMonthGroups_total [OF assms] obtain gs
    where gs: "makeMonthGroups fs limitMonths = Inr gs" by blast
  from makeMonthGroups_texts [OF gs] obtain ds
    where ds: "listDirNames fs (js ''reports'') = Inr ds"
      and texts: "map group_text gs = slice0 (rev (sort ds)) (case limitMonths of None \<Rightarrow> 24 | Some l \<Rightarrow> l)"
    by blast
  have desc: "sorted_wrt (\<lambda>a b. b \<le> a) (map group_text gs)"
    unfolding texts by (rule descending_slice0)
  have items: "\<exists>ns. listMdBasenames fs (js ''reports/'' @ group_text g) = Inr ns
               \<and> map item_text (group_items g) = slice0 (rev (sort ns)) 62
               \<and> sorted_wrt (\<lambda>a b. b \<le> a) (map item_text (group_items g))
               \<and> (mono_on (set (map item_text (group_items g))) date \<longrightarrow>
                    sorted_wrt (\<lambda>a b. date b \<le> date a) (map item_text (group_items g)))"
    if "g \<in> set gs" for g
  proof -
    from makeMonthGroups_items [OF gs that] obtain ns
      where ns: "listMdBasenames fs (js ''reports/'' @ group_text g) = Inr ns"
        and its: "map item_text (group_items g) = slice0 (rev (sort ns)) 62"
      by blast
    have d: "sorted_wrt (\<lambda>a b. b \<le> a) (map item_text (group_items g))"
      unfolding its by (rule descending_slice0)
    from ns its d descending_mono_on [OF d] show ?thesis by blast
  qed
  from gs ds texts desc descending_mono_on [OF desc] items show ?thesis by blast
qed

text \<open>
  An instance: \<open>fs_small\<close>, with the first seven code units of a name as its date.
\<close>

theorem makeMonthGroups_reverse_lexical_witness:
  "reports_consistent fs_small
   \<and> mono_on (set [js ''2026-02'', js ''2026-01'']) (\<lambda>s. take 7 s)
   \<and> (\<exists>gs. makeMonthGroups fs_small None = Inr gs
         \<and> map group_text gs = [js ''2026-02'', js ''2026-01'']
         \<and> sorted_wrt (\<lambda>a b. b \<le> a) (map group_text gs)
         \<and> sorted_wrt (\<lambda>a b. take 7 b \<le> take 7 a) (map group_text gs)
         \<and> list_all (\<lambda>g. sorted_wrt (\<lambda>a b. b \<le> a) (map item_text (group_items g))) gs)"
proof -
  have h: "reports_consistent fs_small"
    by (simp add: reports_consistent_def fs_small_def readable_directory_def js_def)
  have m: "mono_on (set [js ''2026-02'', js ''2026-01'']) (\<lambda>s. take 7 s)"
    by (auto simp: mono_on_def js_def)
  have l: "listDirNames fs_small (js ''reports'') = Inr [js ''2026-01'', js ''2026-02'']"
    by (simp add: listDirNames_cases fs_small_def)
  have s: "slice0 (rev (sort [js ''2026-01'', js ''2026-02''])) 24 = [js ''2026-02'', js ''2026-01'']"
    by (simp add: slice0_def js_def)
  from makeMonthGroups_reverse_lexical [OF h, of None "\<lambda>s. take 7 s"] obtain gs ds
    where gs: "makeMonthGroups fs_small None = Inr gs"
      and ds: "listDirNames fs_small (js ''reports'') = Inr ds"
      and texts: "map group_text gs = slice0 (rev (sort ds)) (case None of None \<Rightarrow> 24 | Some l \<Rightarrow> l)"
      and desc: "sorted_wrt (\<lambda>a b. b \<le> a) (map group_text gs)"
      and date: "mono_on (set (map group_text gs)) (\<lambda>s. take 7 s) \<longrightarrow>
                   sorted_wrt (\<lambda>a b. take 7 b \<le> take 7 a) (map group_text gs)"
      and items: "\<forall>g\<in>set gs. sorted_wrt (\<lambda>a b. b \<le> a) (map item_text (group_items g))"
    by blast
  from ds l have "ds = [js ''2026-01'', js ''2026-02'']" by simp
  with texts s have t: "map group_text gs = [js ''2026-02'', js ''2026-01'']" by simp
  from date m have d7: "sorted_wrt (\<lambda>a b. take 7 b \<le> take 7 a) (map group_text gs)"
    unfolding t by blast
  from items
  have li: "list_all (\<lambda>g. sorted_wrt (\<lambda>a b. b \<le> a) (map item_text (group_items g))) gs"
    by (simp add: list_all_iff)
  show ?thesis
    by (intro conjI exI [of _ gs]; fact)
qed

text \<open>
  Claim C7. When a directory has at most 62 digest basenames (31 at most under the
  one-file-per-date invariant), \<open>makeItems\<close> with the limit 62, passed or defaulted,
  cuts nothing: the items are all the basenames, in descending order. This is the call
  that \<open>makeMonthGroups\<close> makes for a month \<open>m\<close>.
\<close>

theorem makeItems_limit_62_keeps_all:
  assumes "listMdBasenames fs d = Inr ns" and "length ns \<le> 62"
  shows "\<exists>its. makeItems fs prefix d (Some 62) = Inr its
           \<and> makeItems fs prefix d None = Inr its
           \<and> map item_text its = rev (sort ns)
           \<and> length its = length ns
           \<and> set (map item_text its) = set ns
           \<and> (d = js ''reports/'' @ m \<longrightarrow>
                (\<exists>g. month_entry fs m = Inr g \<and> group_text g = m
                    \<and> map item_text (group_items g) = rev (sort ns)))"
proof -
  let ?its = "map (\<lambda>n. \<lparr>item_text = n, item_link = js ''/'' @ prefix @ js ''/'' @ n\<rparr>) (rev (sort ns))"
  from assms(2) have full: "slice0 (rev (sort ns)) 62 = rev (sort ns)"
    by (simp add: slice0_def)
  have a: "makeItems fs prefix d (Some 62) = Inr ?its"
    using makeItems_Inr [OF assms(1), of prefix "Some 62"] full by simp
  have b: "makeItems fs prefix d None = Inr ?its"
    using makeItems_Inr [OF assms(1), of prefix None] full by simp
  have c: "map item_text ?its = rev (sort ns)"
    by (simp add: comp_def)
  have e: "\<exists>g. month_entry fs m = Inr g \<and> group_text g = m
             \<and> map item_text (group_items g) = rev (sort ns)" if "d = js ''reports/'' @ m"
    using makeItems_Inr [OF assms(1), of d "Some 62"] full that
    by (simp add: month_entry_def js_def comp_def)
  have "length ?its = length ns" by simp
  moreover have "set (map item_text ?its) = set ns" unfolding c by simp
  ultimately show ?thesis using a b c e by blast
qed

text \<open>An instance: the month \<open>2026-01\<close> of \<open>fs_small\<close>, which has two digests.\<close>

theorem makeItems_limit_62_keeps_all_witness:
  "listMdBasenames fs_small (js ''reports/2026-01'') = Inr [js ''2026-01-30'', js ''2026-01-31'']
   \<and> length [js ''2026-01-30'', js ''2026-01-31''] \<le> 62
   \<and> (\<exists>its. makeItems fs_small (js ''reports/2026-01'') (js ''reports/2026-01'') (Some 62) = Inr its
         \<and> map item_text its = [js ''2026-01-31'', js ''2026-01-30''])"
proof -
  have h: "listMdBasenames fs_small (js ''reports/2026-01'') = Inr [js ''2026-01-30'', js ''2026-01-31'']"
    by (simp add: listMdBasenames_cases fs_small_def js_def endsWith_def replace_md_def)
  have s: "rev (sort [js ''2026-01-30'', js ''2026-01-31'']) = [js ''2026-01-31'', js ''2026-01-30'']"
    by (simp add: js_def)
  from makeItems_limit_62_keeps_all [OF h, of "js ''reports/2026-01''" "js ''2026-01''"] h s
  show ?thesis by auto
qed

text \<open>
  Claim C8. Whatever a directory contains, \<open>index\<close> is not among the basenames that
  \<open>listMdBasenames\<close> returns, nor the text of an item of \<open>makeItems\<close>, nor the
  text of an item of a group of \<open>makeMonthGroups\<close>.
\<close>

theorem index_md_never_an_item:
  "(listMdBasenames fs d = Inr ns \<longrightarrow> js ''index'' \<notin> set ns)
   \<and> (makeItems fs prefix d limit = Inr its \<longrightarrow> js ''index'' \<notin> set (map item_text its))
   \<and> (makeMonthGroups fs limitMonths = Inr gs \<longrightarrow>
        (\<forall>g\<in>set gs. js ''index'' \<notin> set (map item_text (group_items g))))"
proof -
  have a: "js ''index'' \<notin> set ns'" if "listMdBasenames fs d' = Inr ns'" for d' ns'
    using that by (auto simp: listMdBasenames_cases split: option.splits node.splits)
  have b: "js ''index'' \<notin> set (map item_text its')"
    if "makeItems fs prefix' d' limit' = Inr its'" for prefix' d' limit' its'
  proof -
    from makeItems_texts [OF that] obtain ns'
      where "listMdBasenames fs d' = Inr ns'"
        and "map item_text its' = slice0 (rev (sort ns')) (case limit' of None \<Rightarrow> 62 | Some l \<Rightarrow> l)"
      by blast
    with a [of d' ns'] set_slice0 [of "rev (sort ns')"] show ?thesis by auto
  qed
  have c: "js ''index'' \<notin> set (map item_text (group_items g))"
    if "makeMonthGroups fs limitMonths = Inr gs" and "g \<in> set gs" for g
  proof -
    from makeMonthGroups_items [OF that] obtain ns'
      where "listMdBasenames fs (js ''reports/'' @ group_text g) = Inr ns'"
        and "map item_text (group_items g) = slice0 (rev (sort ns')) 62"
      by blast
    with a [of _ ns'] set_slice0 [of "rev (sort ns')"] show ?thesis by auto
  qed
  from a b c show ?thesis by blast
qed

text \<open>An instance: the month \<open>2026-01\<close> of \<open>fs_small\<close>, which contains \<open>index.md\<close>.\<close>

theorem index_md_never_an_item_witness:
  "fs_small (js ''reports/2026-01'') =
     Some (Dir [\<lparr>name = js ''2026-01-30.md'', isDirectory = False\<rparr>,
                \<lparr>name = js ''index.md'', isDirectory = False\<rparr>,
                \<lparr>name = js ''2026-01-31.md'', isDirectory = False\<rparr>,
                \<lparr>name = js ''cover.png'', isDirectory = False\<rparr>])
   \<and> listMdBasenames fs_small (js ''reports/2026-01'') = Inr [js ''2026-01-30'', js ''2026-01-31'']
   \<and> js ''index'' \<notin> set [js ''2026-01-30'', js ''2026-01-31'']"
proof -
  have h: "listMdBasenames fs_small (js ''reports/2026-01'') = Inr [js ''2026-01-30'', js ''2026-01-31'']"
    by (simp add: listMdBasenames_cases fs_small_def js_def endsWith_def replace_md_def)
  have f: "fs_small (js ''reports/2026-01'') =
     Some (Dir [\<lparr>name = js ''2026-01-30.md'', isDirectory = False\<rparr>,
                \<lparr>name = js ''index.md'', isDirectory = False\<rparr>,
                \<lparr>name = js ''2026-01-31.md'', isDirectory = False\<rparr>,
                \<lparr>name = js ''cover.png'', isDirectory = False\<rparr>])"
    by (simp add: fs_small_def js_def)
  from index_md_never_an_item [of fs_small "js ''reports/2026-01''" "[js ''2026-01-30'', js ''2026-01-31'']"] h f
  show ?thesis by blast
qed

text \<open>
  Where the path exists and is not a directory, no directory exists there, and yet
  \<open>existsSync\<close> holds: \<open>readdirSync\<close> is reached and throws \<open>ENOTDIR\<close>, and building
  the sidebar fails.
\<close>

theorem missing_directory_counterexample:
  "\<not> is_directory fs_reports_is_file (js ''reports'')
   \<and> listDirNames fs_reports_is_file (js ''reports'') = Inl ENOTDIR
   \<and> listMdBasenames fs_reports_is_file (js ''reports'') = Inl ENOTDIR
   \<and> makeMonthGroups fs_reports_is_file (Some 36) = Inl ENOTDIR
   \<and> sidebar fs_reports_is_file = Inl ENOTDIR"
  by (simp add: is_directory_def fs_reports_is_file_def listDirNames_cases listMdBasenames_cases
      makeMonthGroups_def sidebar_def)

text \<open>
  Claim C9, amended. Where nothing exists at the path, \<open>listDirNames\<close> and
  \<open>listMdBasenames\<close> return the empty list instead of raising, so the \<open>ENOENT\<close>
  error of \<open>readdirSync\<close> is unreachable. With nothing at \<open>docs/reports\<close>,
  \<open>makeMonthGroups\<close> returns no group and the sidebar's \<open>Digests\<close> section is empty.
\<close>

theorem missing_path_empty_list:
  "(fs p = None \<longrightarrow> listDirNames fs p = Inr [] \<and> listMdBasenames fs p = Inr [])
   \<and> listDirNames fs p \<noteq> Inl ENOENT
   \<and> listMdBasenames fs p \<noteq> Inl ENOENT
   \<and> (fs (js ''reports'') = None \<longrightarrow>
        makeMonthGroups fs limitMonths = Inr []
      \<and> sidebar fs = Inr [\<lparr>sidebar_text = js ''Digests'', sidebar_items = []\<rparr>])"
proof -
  have "makeMonthGroups fs l = Inr []" if "fs (js ''reports'') = None" for l
    using that by (simp add: makeMonthGroups_def listDirNames_cases slice0_def)
  then show ?thesis
    by (auto simp: listDirNames_cases listMdBasenames_cases sidebar_def
        split: option.splits node.splits)
qed

text \<open>Instances: a path of \<open>fs_small\<close> where nothing exists, and the empty file system.\<close>

theorem missing_path_empty_list_witness:
  "fs_small (js ''drafts'') = None
   \<and> listDirNames fs_small (js ''drafts'') = Inr []
   \<and> listMdBasenames fs_small (js ''drafts'') = Inr []
   \<and> (\<lambda>p. None) (js ''reports'') = (None :: node option)
   \<and> makeMonthGroups (\<lambda>p. None) (Some 36) = Inr []
   \<and> sidebar (\<lambda>p. None) = Inr [\<lparr>sidebar_text = js ''Digests'', sidebar_items = []\<rparr>]"
proof -
  have a: "fs_small (js ''drafts'') = None"
    by (simp add: fs_small_def js_def)
  from a missing_path_empty_list [of fs_small "js ''drafts''"]
    missing_path_empty_list [of "\<lambda>p. None" "js ''reports''" "Some 36"]
  show ?thesis by simp
qed

lemma take_rev_sort_bound:
  fixes xs :: "'a::linorder list"
  assumes "m \<in> set (drop n (rev (sort xs)))" and "t \<in> set (take n (rev (sort xs)))"
  shows "m \<le> t"
proof -
  have "sorted_wrt (\<lambda>a b. b \<le> a) (take n (rev (sort xs)) @ drop n (rev (sort xs)))"
    by (simp add: sorted_wrt_rev)
  with assms show ?thesis
    unfolding sorted_wrt_append by blast
qed

text \<open>
  Claim C10. The configuration calls \<open>makeMonthGroups(36)\<close>: the sidebar's groups are
  the first 36 of the month directories in descending lexical order, so at most 36 are
  shown and every month left out is below every month shown. With more than 36 months
  exactly 36 are shown, and, the names of a directory being distinct, some month is
  left out, the months left out are exactly the rest of the descending list, and each
  is strictly below every month shown. No error is raised.
\<close>

theorem sidebar_shows_36_greatest_months:
  assumes "reports_consistent fs"
    and "fs (js ''reports'') = Some (Dir ds)"
    and "months = map name (filter isDirectory ds)"
  shows "\<exists>gs. sidebar fs = Inr [\<lparr>sidebar_text = js ''Digests'', sidebar_items = gs\<rparr>]
           \<and> map group_text gs = take 36 (rev (sort months))
           \<and> length gs = min 36 (length months)
           \<and> (\<forall>m\<in>set (drop 36 (rev (sort months))). \<forall>t\<in>set (map group_text gs). m \<le> t)
           \<and> (36 < length months \<longrightarrow>
                length gs = 36
              \<and> length (drop 36 (rev (sort months))) = length months - 36
              \<and> (distinct months \<longrightarrow>
                   (\<forall>m\<in>set months. m \<notin> set (map group_text gs) \<longleftrightarrow>
                      m \<in> set (drop 36 (rev (sort months))))
                 \<and> (\<exists>m\<in>set months. m \<notin> set (map group_text gs))
                 \<and> (\<forall>m\<in>set months. m \<notin> set (map group_text gs) \<longrightarrow>
                      (\<forall>t\<in>set (map group_text gs). m < t))))"
proof -
  from makeMonthGroups_total [OF assms(1)] obtain gs
    where gs: "makeMonthGroups fs (Some 36) = Inr gs" by blast
  from makeMonthGroups_texts [OF gs] assms(2,3)
  have texts: "map group_text gs = take 36 (rev (sort months))"
    by (simp add: listDirNames_cases slice0_def)
  from texts have "length (map group_text gs) = length (take 36 (rev (sort months)))"
    by simp
  then have len: "length gs = min 36 (length months)"
    by (simp add: min.commute)
  have bound: "\<forall>m\<in>set (drop 36 (rev (sort months))). \<forall>t\<in>set (map group_text gs). m \<le> t"
    unfolding texts using take_rev_sort_bound by blast
  have split: "set months = set (map group_text gs) \<union> set (drop 36 (rev (sort months)))"
    unfolding texts using set_append [of "take 36 (rev (sort months))" "drop 36 (rev (sort months))"]
    by simp
  have dis: "set (map group_text gs) \<inter> set (drop 36 (rev (sort months))) = {}" if "distinct months"
  proof -
    from that have "distinct (take 36 (rev (sort months)) @ drop 36 (rev (sort months)))"
      by simp
    then show ?thesis unfolding texts distinct_append by blast
  qed
  have omitted: "\<forall>m\<in>set months. m \<notin> set (map group_text gs) \<longleftrightarrow> m \<in> set (drop 36 (rev (sort months)))"
    if "distinct months"
    using dis [OF that] split by blast
  have ex: "\<exists>m\<in>set months. m \<notin> set (map group_text gs)" if "36 < length months" "distinct months"
  proof -
    from that(1) have "drop 36 (rev (sort months)) \<noteq> []" by simp
    then obtain m where "m \<in> set (drop 36 (rev (sort months)))"
      by (cases "drop 36 (rev (sort months))") auto
    with omitted [OF that(2)] split show ?thesis by blast
  qed
  have strict: "\<forall>m\<in>set months. m \<notin> set (map group_text gs) \<longrightarrow> (\<forall>t\<in>set (map group_text gs). m < t)"
    if "distinct months"
  proof (intro ballI impI)
    fix m t assume m: "m \<in> set months" "m \<notin> set (map group_text gs)"
      and t: "t \<in> set (map group_text gs)"
    from m omitted [OF that] have "m \<in> set (drop 36 (rev (sort months)))" by blast
    with bound t have "m \<le> t" by blast
    moreover from m(2) t have "m \<noteq> t" by blast
    ultimately show "m < t" by simp
  qed
  from gs have sb: "sidebar fs = Inr [\<lparr>sidebar_text = js ''Digests'', sidebar_items = gs\<rparr>]"
    by (simp add: sidebar_def)
  have l36: "length gs = 36 \<and> length (drop 36 (rev (sort months))) = length months - 36"
    if "36 < length months"
    using len that by simp
  from sb texts len bound l36 omitted ex strict show ?thesis by blast
qed

text \<open>An instance: of the 37 months of \<open>fs_many\<close>, \<open>2021-01\<close> is left out.\<close>

theorem sidebar_shows_36_greatest_months_witness:
  "reports_consistent fs_many
   \<and> fs_many (js ''reports'') = Some (Dir (map (\<lambda>m. \<lparr>name = m, isDirectory = True\<rparr>) months_many))
   \<and> 36 < length months_many
   \<and> distinct months_many
   \<and> (\<exists>gs. sidebar fs_many = Inr [\<lparr>sidebar_text = js ''Digests'', sidebar_items = gs\<rparr>]
        \<and> length gs = 36
        \<and> js ''2021-01'' \<notin> set (map group_text gs)
        \<and> list_all (\<lambda>t. js ''2021-01'' < t) (map group_text gs))"
proof -
  have h1: "reports_consistent fs_many"
    by (simp add: reports_consistent_def fs_many_def months_many_def js_def readable_directory_def)
  have h2: "fs_many (js ''reports'') = Some (Dir (map (\<lambda>m. \<lparr>name = m, isDirectory = True\<rparr>) months_many))"
    by (simp add: fs_many_def)
  have h3: "months_many = map name (filter isDirectory (map (\<lambda>m. \<lparr>name = m, isDirectory = True\<rparr>) months_many))"
    by (simp add: comp_def)
  have h4: "36 < length months_many"
    by (simp add: months_many_def)
  have h5: "distinct months_many"
    by (simp add: months_many_def js_def)
  have h6: "js ''2021-01'' \<in> set months_many"
    by (simp add: months_many_def)
  have h7: "js ''2021-01'' \<in> set (drop 36 (rev (sort months_many)))"
    by (simp add: months_many_def js_def)
  from sidebar_shows_36_greatest_months [OF h1 h2 h3] h4 h5 h6 h7
  obtain gs where "sidebar fs_many = Inr [\<lparr>sidebar_text = js ''Digests'', sidebar_items = gs\<rparr>]"
    and "length gs = 36"
    and "js ''2021-01'' \<notin> set (map group_text gs)"
    and "\<forall>t\<in>set (map group_text gs). js ''2021-01'' < t"
    by blast
  then have "sidebar fs_many = Inr [\<lparr>sidebar_text = js ''Digests'', sidebar_items = gs\<rparr>]
        \<and> length gs = 36
        \<and> js ''2021-01'' \<notin> set (map group_text gs)
        \<and> list_all (\<lambda>t. js ''2021-01'' < t) (map group_text gs)"
    unfolding list_all_iff by blast
  with h1 h2 h4 h5 show ?thesis by blast
qed

section \<open>Properties of the pipeline\<close>

lemma contains_iff: "contains hay needle \<longleftrightarrow> (\<exists>a b. hay = a @ needle @ b)"
proof (induction hay)
  case Nil
  then show ?case by auto
next
  case (Cons h hay)
  have "take (length needle) (h # hay) = needle \<longleftrightarrow> (\<exists>b. h # hay = needle @ b)"
    by (metis append_eq_conv_conj append_take_drop_id)
  moreover have "(\<exists>a b. h # hay = a @ needle @ b) \<longleftrightarrow>
                 (\<exists>b. h # hay = needle @ b) \<or> (\<exists>a b. hay = a @ needle @ b)"
  proof
    assume "\<exists>a b. h # hay = a @ needle @ b"
    then obtain a b where ab: "h # hay = a @ needle @ b" by blast
    show "(\<exists>b. h # hay = needle @ b) \<or> (\<exists>a b. hay = a @ needle @ b)"
    proof (cases a)
      case Nil
      with ab show ?thesis by auto
    next
      case (Cons x a')
      with ab have "hay = a' @ needle @ b" by simp
      then show ?thesis by blast
    qed
  next
    assume "(\<exists>b. h # hay = needle @ b) \<or> (\<exists>a b. hay = a @ needle @ b)"
    then show "\<exists>a b. h # hay = a @ needle @ b"
    proof
      assume "\<exists>b. h # hay = needle @ b"
      then obtain b where "h # hay = [] @ needle @ b" by auto
      then show ?thesis by blast
    next
      assume "\<exists>a b. hay = a @ needle @ b"
      then obtain a b where "h # hay = (h # a) @ needle @ b" by auto
      then show ?thesis by blast
    qed
  qed
  ultimately show ?case using Cons.IH by simp
qed

lemma qualifying_subset: "set (qualifying cs crit) \<subseteq> set cs"
  by (auto simp: qualifying_def)

lemma qualifying_not_in_window: "c \<in> set (qualifying cs crit) \<Longrightarrow> cid c \<notin> dedup_window crit"
  by (simp add: qualifying_def)

lemma select_subset: "set (select sc cs crit) \<subseteq> set (qualifying cs crit)"
proof -
  have "set (select sc cs crit)
          \<subseteq> set (sort_key (\<lambda>c. (- sc c, - fetched_at c, cid c)) (qualifying cs crit))"
    unfolding select_def by (rule set_take_subset)
  then show ?thesis by simp
qed

lemma length_select:
  "length (select sc cs crit) = min (max_count crit) (length (qualifying cs crit))"
  by (simp add: select_def min.commute)

lemma render_all_sound:
  "(c, e) \<in> set (render_all s m cs) \<Longrightarrow> c \<in> set cs \<and> render s m c = Inr e"
  by (induction cs) (auto split: sum.splits)

lemma render_all_complete:
  "c \<in> set cs \<Longrightarrow> render s m c = Inr e \<Longrightarrow> (c, e) \<in> set (render_all s m cs)"
  by (induction cs) (auto split: sum.splits)

lemma render_Inr:
  "render s m c = Inr e \<Longrightarrow>
     6 \<le> length (summary_points e) \<and> length (summary_points e) \<le> 10
   \<and> contains (task_block e) (entry_post_url e)
   \<and> entry_post_url e = post_url c \<and> entry_title e = title c
   \<and> entry_external_url e = external_url c"
  by (auto simp: render_def Let_def split: if_splits)

lemma render_Inl:
  "render s m c = Inl err \<longleftrightarrow>
     err = TemplateViolation \<and>
     (length (s c) < 6 \<or> 10 < length (s c) \<or> \<not> contains (m c) (post_url c))"
  by (auto simp: render_def Let_def)

lemma remove_absent_temp:
  "temp_files repo k = None \<Longrightarrow> repo\<lparr>temp_files := (temp_files repo)(k := None)\<rparr> = repo"
  by (simp add: fun_upd_idem)

lemma publish_refuses:
  "digest_files repo (date_key d) \<noteq> None \<Longrightarrow>
   publish False f d ids repo = (Inl AlreadyPublished, repo)"
  by (simp add: publish_def)

lemma publish_unfold:
  "publish ow f d ids repo =
     (if digest_files repo (date_key d) \<noteq> None \<and> \<not> ow then (Inl AlreadyPublished, repo)
      else case f of
        NoFault \<Rightarrow>
          (Inr (), repo\<lparr>temp_files := (temp_files repo)(date_key d := None),
                        publication_record := publication_record repo @ ids,
                        digest_files := (digest_files repo)(date_key d \<mapsto> d)\<rparr>)
      | _ \<Rightarrow> (Inl PublishIOError, repo\<lparr>temp_files := (temp_files repo)(date_key d := None)\<rparr>))"
  by (cases f) (simp_all add: publish_def Let_def)

lemma publish_Inl:
  assumes "fst (publish ow f d ids repo) = Inl err"
  shows "publication_record (snd (publish ow f d ids repo)) = publication_record repo"
    and "digest_files (snd (publish ow f d ids repo)) = digest_files repo"
    and "temp_files repo (date_key d) = None \<Longrightarrow> snd (publish ow f d ids repo) = repo"
    and "err = AlreadyPublished \<or> err = PublishIOError"
    and "err = AlreadyPublished \<Longrightarrow> snd (publish ow f d ids repo) = repo"
proof -
  show "publication_record (snd (publish ow f d ids repo)) = publication_record repo"
    using assms by (cases f) (simp_all add: publish_unfold split: if_splits)
  show "digest_files (snd (publish ow f d ids repo)) = digest_files repo"
    using assms by (cases f) (simp_all add: publish_unfold split: if_splits)
  show "snd (publish ow f d ids repo) = repo" if "temp_files repo (date_key d) = None"
    using assms that by (cases f) (simp_all add: publish_unfold remove_absent_temp split: if_splits)
  show "err = AlreadyPublished \<or> err = PublishIOError"
    using assms by (cases f) (auto simp: publish_unfold split: if_splits)
  show "snd (publish ow f d ids repo) = repo" if "err = AlreadyPublished"
    using assms that by (cases f) (auto simp: publish_unfold split: if_splits)
qed

lemma publish_Inr:
  assumes "fst (publish ow f d ids repo) = Inr u"
  shows "snd (publish ow f d ids repo) =
           repo\<lparr>temp_files := (temp_files repo)(date_key d := None),
                publication_record := publication_record repo @ ids,
                digest_files := (digest_files repo)(date_key d \<mapsto> d)\<rparr>"
    and "f = NoFault"
    and "digest_files repo (date_key d) = None \<or> ow"
proof -
  show "snd (publish ow f d ids repo) =
           repo\<lparr>temp_files := (temp_files repo)(date_key d := None),
                publication_record := publication_record repo @ ids,
                digest_files := (digest_files repo)(date_key d \<mapsto> d)\<rparr>"
    using assms by (cases f) (auto simp: publish_unfold split: if_splits)
  show "f = NoFault"
    using assms by (cases f) (simp_all add: publish_unfold split: if_splits)
  show "digest_files repo (date_key d) = None \<or> ow"
    using assms by (cases f) (auto simp: publish_unfold split: if_splits)
qed

lemma publish_temp_files:
  "temp_files repo = Map.empty \<Longrightarrow> temp_files (snd (publish ow f d ids repo)) = Map.empty"
  by (cases f) (simp_all add: publish_unfold)

lemma run_cases:
  obtains
    (fetch_failed) err where "fetch (response inp) = Inl err" "run pol inp repo = (Failed err, repo)"
  | (skipped) cands where "fetch (response inp) = Inr cands" "kept_in pol cands repo = []"
      "run pol inp repo = (SkippedEmpty, repo)"
  | (publish_failed) cands err where "fetch (response inp) = Inr cands" "kept_in pol cands repo \<noteq> []"
      "fst (publish (overwrite inp) (fault inp)
              \<lparr>date_key = run_date_key inp, entries = map snd (kept_in pol cands repo)\<rparr>
              (map (cid \<circ> fst) (kept_in pol cands repo)) repo) = Inl err"
      "run pol inp repo =
         (Failed err,
          snd (publish (overwrite inp) (fault inp)
                 \<lparr>date_key = run_date_key inp, entries = map snd (kept_in pol cands repo)\<rparr>
                 (map (cid \<circ> fst) (kept_in pol cands repo)) repo))"
  | (published) cands u where "fetch (response inp) = Inr cands" "kept_in pol cands repo \<noteq> []"
      "fst (publish (overwrite inp) (fault inp)
              \<lparr>date_key = run_date_key inp, entries = map snd (kept_in pol cands repo)\<rparr>
              (map (cid \<circ> fst) (kept_in pol cands repo)) repo) = Inr u"
      "run pol inp repo =
         (Published \<lparr>date_key = run_date_key inp, entries = map snd (kept_in pol cands repo)\<rparr>,
          snd (publish (overwrite inp) (fault inp)
                 \<lparr>date_key = run_date_key inp, entries = map snd (kept_in pol cands repo)\<rparr>
                 (map (cid \<circ> fst) (kept_in pol cands repo)) repo))"
proof (cases "fetch (response inp)")
  case (Inl err)
  then have "run pol inp repo = (Failed err, repo)" by (simp add: run_def)
  with Inl show ?thesis by (rule fetch_failed)
next
  case (Inr cands)
  show ?thesis
  proof (cases "kept_in pol cands repo = []")
    case True
    with Inr have "run pol inp repo = (SkippedEmpty, repo)" by (simp add: run_def)
    with Inr True show ?thesis by (rule skipped)
  next
    case False
    let ?p = "publish (overwrite inp) (fault inp)
              \<lparr>date_key = run_date_key inp, entries = map snd (kept_in pol cands repo)\<rparr>
              (map (cid \<circ> fst) (kept_in pol cands repo)) repo"
    show ?thesis
    proof (cases "fst ?p")
      case (Inl err)
      with Inr False have "run pol inp repo = (Failed err, snd ?p)"
        by (cases ?p) (simp add: run_def Let_def)
      with Inr False Inl show ?thesis by (rule publish_failed)
    next
      case (Inr u)
      with \<open>fetch (response inp) = Inr cands\<close> False
      have "run pol inp repo =
              (Published \<lparr>date_key = run_date_key inp, entries = map snd (kept_in pol cands repo)\<rparr>,
               snd ?p)"
        by (cases ?p) (simp add: run_def Let_def)
      with \<open>fetch (response inp) = Inr cands\<close> False Inr show ?thesis by (rule published)
    qed
  qed
qed

lemma run_record_grows:
  "set (publication_record repo) \<subseteq> set (publication_record (snd (run pol inp repo)))"
proof (cases pol inp repo rule: run_cases)
  case (publish_failed cands err)
  then show ?thesis using publish_Inl(1) by simp
next
  case (published cands u)
  then show ?thesis using publish_Inr(1) by simp
qed simp_all

lemma run_all_record_grows:
  "set (publication_record repo) \<subseteq> set (publication_record (run_all pol inps repo))"
proof (induction inps arbitrary: repo)
  case Nil
  show ?case by simp
next
  case (Cons inp inps)
  from run_record_grows [of repo pol inp] Cons.IH [of "snd (run pol inp repo)"]
  show ?case by auto
qed

lemma selected_in_fresh:
  "c \<in> set (selected_in pol cands repo) \<Longrightarrow> cid c \<notin> set (publication_record repo)"
proof -
  assume "c \<in> set (selected_in pol cands repo)"
  then have "c \<in> set (qualifying cands (criteria_of pol repo))"
    unfolding selected_in_def using select_subset by blast
  from qualifying_not_in_window [OF this] show ?thesis
    by (simp add: criteria_of_def)
qed

lemma kept_in_selected:
  "(c, e) \<in> set (kept_in pol cands repo) \<Longrightarrow>
     c \<in> set (selected_in pol cands repo) \<and> render (summarize pol) (make_task pol) c = Inr e"
  unfolding kept_in_def by (rule render_all_sound)

lemma example_selected:
  "selected_in example_policy example_feed empty_repository =
     [post ''d'' ''Delta'' ''dddddd'' 5, post ''a'' ''Alpha'' ''aaaa'' 3, post ''b'' ''short'' ''bb'' 2]"
  by (simp add: selected_in_def select_def qualifying_def criteria_of_def example_policy_def
      example_feed_def empty_repository_def post_def)

lemma example_kept:
  "kept_in example_policy example_feed empty_repository =
     [(post ''d'' ''Delta'' ''dddddd'' 5,
       \<lparr>entry_title = ''Delta'', entry_post_url = ''https://example.org/post/d'',
        entry_external_url = None, summary_points = replicate 6 ''Delta'',
        task_block = ''read https://example.org/post/d''\<rparr>),
      (post ''a'' ''Alpha'' ''aaaa'' 3,
       \<lparr>entry_title = ''Alpha'', entry_post_url = ''https://example.org/post/a'',
        entry_external_url = None, summary_points = replicate 6 ''Alpha'',
        task_block = ''read https://example.org/post/a''\<rparr>)]"
  unfolding kept_in_def example_selected
  by (simp add: example_policy_def render_def post_def)

lemma example_run_result:
  "run example_policy example_run empty_repository =
     (Published example_digest, example_repository)"
  by (simp add: run_def fetch_def example_run_def example_kept [unfolded empty_repository_def]
      Let_def publish_unfold empty_repository_def example_digest_def example_repository_def
      post_def)

text \<open>
  Claim C5. With min_count at most max_count, the Selector returns at most max_count
  candidates; at least min_count of them when at least min_count qualify; and, when
  fewer than min_count qualify, exactly the qualifying candidates (the same multiset).
  In every case what is selected is among the qualifying candidates of the feed:
  nothing is fabricated.
\<close>

theorem select_bounded:
  assumes "min_count crit \<le> max_count crit"
  shows "length (select sc cs crit) \<le> max_count crit
       \<and> (min_count crit \<le> length (qualifying cs crit) \<longrightarrow>
            min_count crit \<le> length (select sc cs crit))
       \<and> (length (qualifying cs crit) < min_count crit \<longrightarrow>
            mset (select sc cs crit) = mset (qualifying cs crit)
          \<and> length (select sc cs crit) = length (qualifying cs crit))
       \<and> set (select sc cs crit) \<subseteq> set (qualifying cs crit)
       \<and> set (qualifying cs crit) \<subseteq> set cs"
proof -
  have a: "length (select sc cs crit) \<le> max_count crit"
    by (simp add: length_select)
  have b: "min_count crit \<le> length (select sc cs crit)"
    if "min_count crit \<le> length (qualifying cs crit)"
    using that assms by (simp add: length_select)
  have c: "mset (select sc cs crit) = mset (qualifying cs crit)
         \<and> length (select sc cs crit) = length (qualifying cs crit)"
    if "length (qualifying cs crit) < min_count crit"
  proof -
    from that assms have "length (qualifying cs crit) \<le> max_count crit" by simp
    then have "select sc cs crit
                 = sort_key (\<lambda>c. (- sc c, - fetched_at c, cid c)) (qualifying cs crit)"
      by (simp add: select_def)
    then show ?thesis by simp
  qed
  from a b c select_subset qualifying_subset show ?thesis by blast
qed

text \<open>An instance: of the example feed two candidates qualify, fewer than the minimum of 8.\<close>

theorem select_bounded_witness:
  "min_count (criteria_of example_policy empty_repository)
     \<le> max_count (criteria_of example_policy empty_repository)
   \<and> length (qualifying example_feed (criteria_of example_policy empty_repository))
       < min_count (criteria_of example_policy empty_repository)
   \<and> length (select (score example_policy) example_feed (criteria_of example_policy empty_repository)) \<le> 12
   \<and> mset (select (score example_policy) example_feed (criteria_of example_policy empty_repository))
       = mset (qualifying example_feed (criteria_of example_policy empty_repository))"
proof -
  have h: "min_count (criteria_of example_policy empty_repository)
             \<le> max_count (criteria_of example_policy empty_repository)"
    by (simp add: criteria_of_def example_policy_def)
  have q: "length (qualifying example_feed (criteria_of example_policy empty_repository))
             < min_count (criteria_of example_policy empty_repository)"
    by (simp add: qualifying_def criteria_of_def example_policy_def example_feed_def
        empty_repository_def post_def)
  have m: "max_count (criteria_of example_policy empty_repository) = 12"
    by (simp add: criteria_of_def example_policy_def)
  from select_bounded [OF h, of "score example_policy" example_feed] h q m
  show ?thesis by simp
qed

text \<open>
  Claim C3. Let the id \<open>i\<close> be in the PublicationRecord. Step 1 of the Selector drops
  every candidate with that id. After any further runs the id is still recorded, no
  candidate with that id is selected or kept by a run that starts there, and a digest
  that such a run publishes is made of the entries of kept candidates, none of which
  has the id; the ids of these candidates are what the run appends to the record.
\<close>

theorem published_id_never_selected_again:
  assumes "i \<in> set (publication_record repo)"
  shows "(\<forall>c\<in>set cands. cid c = i \<longrightarrow> c \<notin> set (qualifying cands (criteria_of pol repo)))
       \<and> i \<in> set (publication_record (run_all pol inps repo))
       \<and> i \<notin> cid ` set (selected_in pol cands (run_all pol inps repo))
       \<and> i \<notin> cid ` fst ` set (kept_in pol cands (run_all pol inps repo))
       \<and> (\<forall>d. fst (run pol inp (run_all pol inps repo)) = Published d \<longrightarrow>
            (\<exists>kept. entries d = map snd kept
                 \<and> (\<forall>(c, e)\<in>set kept. render (summarize pol) (make_task pol) c = Inr e)
                 \<and> i \<notin> cid ` fst ` set kept
                 \<and> publication_record (snd (run pol inp (run_all pol inps repo)))
                     = publication_record (run_all pol inps repo) @ map (cid \<circ> fst) kept))"
proof -
  let ?later = "run_all pol inps repo"
  from assms run_all_record_grows [of repo pol inps]
  have later: "i \<in> set (publication_record ?later)" by blast
  have step1: "\<forall>c\<in>set cands. cid c = i \<longrightarrow> c \<notin> set (qualifying cands (criteria_of pol repo))"
    using assms qualifying_not_in_window [of _ cands "criteria_of pol repo"]
    by (auto simp: criteria_of_def)
  have sel: "i \<notin> cid ` set (selected_in pol cs ?later)" for cs
    using later selected_in_fresh [of _ pol cs ?later] by blast
  have kept: "i \<notin> cid ` fst ` set (kept_in pol cs ?later)" for cs
  proof
    assume "i \<in> cid ` fst ` set (kept_in pol cs ?later)"
    then obtain c e where "(c, e) \<in> set (kept_in pol cs ?later)" and "cid c = i" by force
    with kept_in_selected [of c e pol cs ?later] sel [of cs] show False by blast
  qed
  have pub: "\<exists>kept. entries d = map snd kept
                 \<and> (\<forall>(c, e)\<in>set kept. render (summarize pol) (make_task pol) c = Inr e)
                 \<and> i \<notin> cid ` fst ` set kept
                 \<and> publication_record (snd (run pol inp ?later))
                     = publication_record ?later @ map (cid \<circ> fst) kept"
    if "fst (run pol inp ?later) = Published d" for d
  proof (cases pol inp ?later rule: run_cases)
    case (published cs u)
    let ?kept = "kept_in pol cs ?later"
    from published(4) that have d: "entries d = map snd ?kept" by auto
    have r: "\<forall>(c, e)\<in>set ?kept. render (summarize pol) (make_task pol) c = Inr e"
      using kept_in_selected [of _ _ pol cs ?later] by blast
    have p: "publication_record (snd (run pol inp ?later))
               = publication_record ?later @ map (cid \<circ> fst) ?kept"
      using published(4) publish_Inr(1) [OF published(3)] by simp
    from d r kept [of cs] p show ?thesis by blast
  qed (use that in simp_all)
  from step1 later sel kept pub show ?thesis by blast
qed

text \<open>An instance: the post \<open>a\<close>, published by the example run.\<close>

theorem published_id_never_selected_again_witness:
  "''a'' \<in> set (publication_record example_repository)
   \<and> post ''a'' ''Alpha'' ''aaaa'' 3 \<in> set example_feed
   \<and> post ''a'' ''Alpha'' ''aaaa'' 3 \<notin> set (qualifying example_feed (criteria_of example_policy example_repository))
   \<and> ''a'' \<notin> cid ` set (selected_in example_policy example_feed
                          (run_all example_policy [example_run] example_repository))"
proof -
  have h: "''a'' \<in> set (publication_record example_repository)"
    by (simp add: example_repository_def)
  have f: "post ''a'' ''Alpha'' ''aaaa'' 3 \<in> set example_feed"
    by (simp add: example_feed_def)
  have c: "cid (post ''a'' ''Alpha'' ''aaaa'' 3) = ''a''"
    by (simp add: post_def)
  from published_id_never_selected_again [OF h, of example_feed example_policy "[example_run]"] h f c
  show ?thesis by blast
qed

text \<open>
  Claim C2. Let a first run publish the digest of a date_key, and let a second run for
  the same date_key not ask to overwrite. After the first run there is one digest file
  more than before, that of the date_key. Every publication that the second run can
  attempt is refused with AlreadyPublished and leaves the repository as it is; the
  second run as a whole leaves the repository as it is (digest files, temporary files
  and PublicationRecord), and it ends with AlreadyPublished whenever it reaches the
  Publisher, that is, when the source answers and an entry is kept.
\<close>

theorem second_run_already_published:
  assumes "run pol inp1 repo0 = (Published d1, repo1)"
    and "run_date_key inp2 = run_date_key inp1"
    and "\<not> overwrite inp2"
  shows "digest_files repo1 (run_date_key inp1) = Some d1
       \<and> dom (digest_files repo1) = insert (run_date_key inp1) (dom (digest_files repo0))
       \<and> (\<forall>f d ids. date_key d = run_date_key inp1 \<longrightarrow>
            publish False f d ids repo1 = (Inl AlreadyPublished, repo1))
       \<and> snd (run pol inp2 repo1) = repo1
       \<and> (fst (run pol inp2 repo1) = Failed AlreadyPublished
          \<or> fst (run pol inp2 repo1) = SkippedEmpty
          \<or> fst (run pol inp2 repo1) = Failed SourceUnavailable
          \<or> fst (run pol inp2 repo1) = Failed MalformedResponse)
       \<and> (\<forall>cands. fetch (response inp2) = Inr cands \<and> kept_in pol cands repo1 \<noteq> [] \<longrightarrow>
            fst (run pol inp2 repo1) = Failed AlreadyPublished)"
proof -
  have first: "digest_files repo1 (run_date_key inp1) = Some d1
             \<and> dom (digest_files repo1) = insert (run_date_key inp1) (dom (digest_files repo0))"
  proof (cases pol inp1 repo0 rule: run_cases)
    case (published cands u)
    from published(4) assms(1)
    have d1: "d1 = \<lparr>date_key = run_date_key inp1, entries = map snd (kept_in pol cands repo0)\<rparr>"
      and r1: "repo1 = snd (publish (overwrite inp1) (fault inp1)
                 \<lparr>date_key = run_date_key inp1, entries = map snd (kept_in pol cands repo0)\<rparr>
                 (map (cid \<circ> fst) (kept_in pol cands repo0)) repo0)"
      by simp_all
    from publish_Inr(1) [OF published(3)] show ?thesis
      unfolding r1 d1 by simp
  qed (use assms(1) in simp_all)
  then have exists: "digest_files repo1 (run_date_key inp1) \<noteq> None" by simp
  have refuse: "publish False f d ids repo1 = (Inl AlreadyPublished, repo1)"
    if "date_key d = run_date_key inp1" for f d ids
    using exists that by (simp add: publish_refuses)
  have second: "snd (run pol inp2 repo1) = repo1
       \<and> (fst (run pol inp2 repo1) = Failed AlreadyPublished
          \<or> fst (run pol inp2 repo1) = SkippedEmpty
          \<or> fst (run pol inp2 repo1) = Failed SourceUnavailable
          \<or> fst (run pol inp2 repo1) = Failed MalformedResponse)
       \<and> (\<forall>cands. fetch (response inp2) = Inr cands \<and> kept_in pol cands repo1 \<noteq> [] \<longrightarrow>
            fst (run pol inp2 repo1) = Failed AlreadyPublished)"
  proof (cases pol inp2 repo1 rule: run_cases)
    case (fetch_failed err)
    from fetch_failed(1) have "err = SourceUnavailable \<or> err = MalformedResponse"
      by (auto simp: fetch_def split: source_response.splits)
    with fetch_failed show ?thesis by auto
  next
    case (skipped cands)
    then show ?thesis by auto
  next
    case (publish_failed cands err)
    from refuse [of "\<lparr>date_key = run_date_key inp2, entries = map snd (kept_in pol cands repo1)\<rparr>"]
      assms(2,3) publish_failed show ?thesis by auto
  next
    case (published cands u)
    from refuse [of "\<lparr>date_key = run_date_key inp2, entries = map snd (kept_in pol cands repo1)\<rparr>"]
      assms(2,3) published show ?thesis by auto
  qed
  from first refuse second show ?thesis by blast
qed

text \<open>An instance: the example run, then a run for the same date with one more post.\<close>

theorem second_run_already_published_witness:
  "run example_policy example_run empty_repository = (Published example_digest, example_repository)
   \<and> run_date_key (example_run\<lparr>response := Records (post ''e'' ''Eps'' ''eeee'' 9 # example_feed)\<rparr>)
       = run_date_key example_run
   \<and> \<not> overwrite (example_run\<lparr>response := Records (post ''e'' ''Eps'' ''eeee'' 9 # example_feed)\<rparr>)
   \<and> snd (run example_policy
             (example_run\<lparr>response := Records (post ''e'' ''Eps'' ''eeee'' 9 # example_feed)\<rparr>)
             example_repository) = example_repository
   \<and> dom (digest_files example_repository) = {''2026-01-31''}"
proof -
  let ?inp2 = "example_run\<lparr>response := Records (post ''e'' ''Eps'' ''eeee'' 9 # example_feed)\<rparr>"
  have h2: "run_date_key ?inp2 = run_date_key example_run" by simp
  have h3: "\<not> overwrite ?inp2" by (simp add: example_run_def)
  have e: "run_date_key example_run = ''2026-01-31''" by (simp add: example_run_def)
  have z: "dom (digest_files empty_repository) = {}" by (simp add: empty_repository_def)
  from second_run_already_published [OF example_run_result h2 h3] example_run_result h2 h3 e z
  show ?thesis by simp
qed

text \<open>
  Claim C4. Every entry of a published digest has between 6 and 10 summary points and a
  task block of which its post_url is a substring. \<open>render\<close> fails, and then with
  TemplateViolation, exactly when the count is out of these bounds or the task block
  omits the post_url; a candidate that fails is not kept, every selected candidate that
  renders is kept, and the published digest consists of the kept entries.
\<close>

theorem published_entries_conform:
  "(fst (run pol inp repo) = Published d \<longrightarrow>
      (\<forall>e\<in>set (entries d).
         6 \<le> length (summary_points e) \<and> length (summary_points e) \<le> 10
       \<and> (\<exists>a b. task_block e = a @ entry_post_url e @ b)))
   \<and> (render s m c = Inl TemplateViolation \<longleftrightarrow>
        length (s c) < 6 \<or> 10 < length (s c) \<or> \<not> (\<exists>a b. m c = a @ post_url c @ b))
   \<and> (\<forall>err. render s m c = Inl err \<longrightarrow> err = TemplateViolation)
   \<and> (render (summarize pol) (make_task pol) c = Inl TemplateViolation \<longrightarrow>
        c \<notin> fst ` set (kept_in pol cands repo))
   \<and> (\<forall>c' e'. c' \<in> set (selected_in pol cands repo)
          \<and> render (summarize pol) (make_task pol) c' = Inr e' \<longrightarrow>
          (c', e') \<in> set (kept_in pol cands repo))
   \<and> (fst (run pol inp repo) = Published d \<and> fetch (response inp) = Inr cands \<longrightarrow>
        entries d = map snd (kept_in pol cands repo))"
proof -
  have kept_ok: "6 \<le> length (summary_points e) \<and> length (summary_points e) \<le> 10
       \<and> (\<exists>a b. task_block e = a @ entry_post_url e @ b)"
    if "e \<in> snd ` set (kept_in pol cs repo)" for e cs
  proof -
    from that obtain c' where "(c', e) \<in> set (kept_in pol cs repo)" by force
    then have "render (summarize pol) (make_task pol) c' = Inr e"
      by (simp add: kept_in_selected)
    from render_Inr [OF this] show ?thesis unfolding contains_iff by blast
  qed
  have a: "\<forall>e\<in>set (entries d).
         6 \<le> length (summary_points e) \<and> length (summary_points e) \<le> 10
       \<and> (\<exists>a b. task_block e = a @ entry_post_url e @ b)"
    if "fst (run pol inp repo) = Published d"
  proof (cases pol inp repo rule: run_cases)
    case (published cs u)
    with that have "entries d = map snd (kept_in pol cs repo)" by auto
    with kept_ok [of _ cs] show ?thesis by auto
  qed (use that in simp_all)
  have b: "render s m c = Inl TemplateViolation \<longleftrightarrow>
        length (s c) < 6 \<or> 10 < length (s c) \<or> \<not> (\<exists>a b. m c = a @ post_url c @ b)"
    by (simp add: render_Inl contains_iff)
  have b': "\<forall>err. render s m c = Inl err \<longrightarrow> err = TemplateViolation"
    by (simp add: render_Inl)
  have c: "c \<notin> fst ` set (kept_in pol cands repo)"
    if "render (summarize pol) (make_task pol) c = Inl TemplateViolation"
  proof
    assume "c \<in> fst ` set (kept_in pol cands repo)"
    then obtain e where "(c, e) \<in> set (kept_in pol cands repo)" by force
    then have "render (summarize pol) (make_task pol) c = Inr e"
      by (simp add: kept_in_selected)
    with that show False by simp
  qed
  have d: "\<forall>c' e'. c' \<in> set (selected_in pol cands repo)
          \<and> render (summarize pol) (make_task pol) c' = Inr e' \<longrightarrow>
          (c', e') \<in> set (kept_in pol cands repo)"
    unfolding kept_in_def using render_all_complete by blast
  have e: "entries d = map snd (kept_in pol cands repo)"
    if "fst (run pol inp repo) = Published d" and "fetch (response inp) = Inr cands"
  proof (cases pol inp repo rule: run_cases)
    case (published cs u)
    with that show ?thesis by auto
  qed (use that in simp_all)
  from a b b' c d e show ?thesis by blast
qed

text \<open>An instance: the example run, in which the post \<open>b\<close> has four summary points.\<close>

theorem published_entries_conform_witness:
  "fst (run example_policy example_run empty_repository) = Published example_digest
   \<and> list_all (\<lambda>e. 6 \<le> length (summary_points e) \<and> length (summary_points e) \<le> 10
                    \<and> (\<exists>a b. task_block e = a @ entry_post_url e @ b))
        (entries example_digest)
   \<and> render (summarize example_policy) (make_task example_policy) (post ''b'' ''short'' ''bb'' 2)
        = Inl TemplateViolation
   \<and> post ''b'' ''short'' ''bb'' 2 \<in> set (selected_in example_policy example_feed empty_repository)
   \<and> post ''b'' ''short'' ''bb'' 2 \<notin> fst ` set (kept_in example_policy example_feed empty_repository)"
proof -
  have h: "fst (run example_policy example_run empty_repository) = Published example_digest"
    by (simp add: example_run_result)
  have r: "render (summarize example_policy) (make_task example_policy) (post ''b'' ''short'' ''bb'' 2)
             = Inl TemplateViolation"
    by (simp add: render_def example_policy_def post_def)
  have s: "post ''b'' ''short'' ''bb'' 2 \<in> set (selected_in example_policy example_feed empty_repository)"
    by (simp add: example_selected)
  from published_entries_conform [of example_policy example_run empty_repository example_digest
      "summarize example_policy" "make_task example_policy" "post ''b'' ''short'' ''bb'' 2" example_feed]
    h r s
  show ?thesis unfolding list_all_iff by blast
qed

lemma run_all_temp_files:
  "temp_files repo = Map.empty \<Longrightarrow> temp_files (run_all pol inps repo) = Map.empty"
proof (induction inps arbitrary: repo)
  case Nil
  then show ?case by simp
next
  case (Cons inp inps)
  have "temp_files (snd (run pol inp repo)) = Map.empty"
  proof (cases pol inp repo rule: run_cases)
    case (publish_failed cands err)
    with Cons.prems publish_temp_files show ?thesis by simp
  next
    case (published cands u)
    with Cons.prems publish_temp_files show ?thesis by simp
  qed (use Cons.prems in simp_all)
  from Cons.IH [OF this] show ?case by simp
qed

text \<open>
  Claim C6. From a repository without temporary files, a run that ends in Failed (at
  Fetch or at Publish) or in SkippedEmpty leaves the repository exactly as it was, and
  a run that ends in Published has both written the digest file and appended ids to the
  PublicationRecord. No run, and no sequence of runs, leaves a temporary file, so the
  assumption holds again at the start of the next run.
\<close>

theorem failed_run_leaves_repository_unchanged:
  assumes "temp_files repo = Map.empty"
  shows "(\<forall>err. fst (run pol inp repo) = Failed err \<longrightarrow> snd (run pol inp repo) = repo)
       \<and> (fst (run pol inp repo) = SkippedEmpty \<longrightarrow> snd (run pol inp repo) = repo)
       \<and> (\<forall>d. fst (run pol inp repo) = Published d \<longrightarrow>
            (\<exists>ids. ids \<noteq> []
               \<and> snd (run pol inp repo) =
                   repo\<lparr>publication_record := publication_record repo @ ids,
                        digest_files := (digest_files repo)(date_key d \<mapsto> d)\<rparr>))
       \<and> temp_files (snd (run pol inp repo)) = Map.empty
       \<and> temp_files (run_all pol inps repo) = Map.empty"
proof (cases pol inp repo rule: run_cases)
  case (fetch_failed err)
  with assms run_all_temp_files [OF assms] show ?thesis by simp
next
  case (skipped cands)
  with assms run_all_temp_files [OF assms] show ?thesis by simp
next
  case (publish_failed cands err)
  from assms have "temp_files repo (run_date_key inp) = None" by simp
  with publish_Inl(3) [OF publish_failed(3)] publish_failed(4)
  have "run pol inp repo = (Failed err, repo)" by simp
  with assms run_all_temp_files [OF assms] show ?thesis by simp
next
  case (published cands u)
  let ?d = "\<lparr>date_key = run_date_key inp, entries = map snd (kept_in pol cands repo)\<rparr>"
  let ?ids = "map (cid \<circ> fst) (kept_in pol cands repo)"
  from assms have "(temp_files repo)(run_date_key inp := None) = temp_files repo" by simp
  with publish_Inr(1) [OF published(3)] published(4)
  have r: "run pol inp repo =
             (Published ?d, repo\<lparr>publication_record := publication_record repo @ ?ids,
                                 digest_files := (digest_files repo)(date_key ?d \<mapsto> ?d)\<rparr>)"
    by simp
  from published(2) have "?ids \<noteq> []" by simp
  with r assms run_all_temp_files [OF assms] show ?thesis by auto
qed

text \<open>An instance: an overwriting run whose rename fails.\<close>

theorem failed_run_leaves_repository_unchanged_witness:
  "temp_files example_repository = Map.empty
   \<and> fst (run example_policy
             (example_run\<lparr>response := Records (post ''e'' ''Eps'' ''eeee'' 9 # example_feed),
                          overwrite := True, fault := RenameFails\<rparr>)
             example_repository) = Failed PublishIOError
   \<and> snd (run example_policy
             (example_run\<lparr>response := Records (post ''e'' ''Eps'' ''eeee'' 9 # example_feed),
                          overwrite := True, fault := RenameFails\<rparr>)
             example_repository) = example_repository"
proof -
  let ?inp = "example_run\<lparr>response := Records (post ''e'' ''Eps'' ''eeee'' 9 # example_feed),
                          overwrite := True, fault := RenameFails\<rparr>"
  have h: "temp_files example_repository = Map.empty"
    by (simp add: example_repository_def)
  have k: "kept_in example_policy (post ''e'' ''Eps'' ''eeee'' 9 # example_feed) example_repository \<noteq> []"
    by (simp add: kept_in_def selected_in_def select_def qualifying_def criteria_of_def
        example_policy_def example_feed_def example_repository_def post_def render_def)
  have f: "fst (run example_policy ?inp example_repository) = Failed PublishIOError"
    using k by (simp add: run_def fetch_def example_run_def Let_def publish_unfold)
  from failed_run_leaves_repository_unchanged [OF h, of example_policy ?inp] h f
  show ?thesis by simp
qed

end
